theory Spec2Isabelle
  imports Main "HOL-Library.AList" "HOL-Library.Log_Nat"
begin

section \<open>Python exceptions\<close>

text \<open>
  The exceptions the notebook \<^verbatim>\<open>notebooks/qm9_data_prep.ipynb\<close> can raise, as values.
  A function that may raise returns \<open>error + 'a\<close>, with \<open>Inl\<close> for the exception.
  \<open>ArgumentError\<close> is the exception of the chemistry toolkit's Python bindings.
\<close>

datatype error =
    AssertionError
  | ValueError
  | IndexError
  | KeyError
  | NameError
  | OverflowError
  | ZeroDivisionError
  | ArgumentError

section \<open>The tokenizer \<^verbatim>\<open>smi_tokenizer\<close>\<close>

text \<open>
  The regular expression of \<^verbatim>\<open>smi_tokenizer\<close> is one group around an alternation:
  \<^verbatim>\<open>(\[[^\]]+]|Br?|Cl?|N|O|S|P|F|I|b|c|n|o|s|p|\(|\)|\.|=|#|-|\+|\\|\/|:|~|@|\?|>|\*|\$|\%[0-9]{2}|[0-9])\<close>
  Each alternative is one of five shapes. Strings are lists of 8-bit characters; a
  character outside ASCII is the bytes of its encoding, none of which any
  alternative but the bracket's body matches, so that skipping a code point and
  skipping its bytes one by one give the same tokens.
\<close>

datatype alt =
    Bracket             \<comment> \<open>\<^verbatim>\<open>\[[^\]]+]\<close>\<close>
  | Opt char char       \<comment> \<open>\<^verbatim>\<open>Br?\<close>, \<^verbatim>\<open>Cl?\<close>\<close>
  | Lit char            \<comment> \<open>one literal character\<close>
  | Percent2            \<comment> \<open>\<^verbatim>\<open>\%[0-9]{2}\<close>\<close>
  | Digit               \<comment> \<open>\<^verbatim>\<open>[0-9]\<close>\<close>

definition is_digit :: "char \<Rightarrow> bool" where
  "is_digit c = (c \<in> set ''0123456789'')"

definition pattern :: "alt list" where
  "pattern =
     [Bracket, Opt CHR ''B'' CHR ''r'', Opt CHR ''C'' CHR ''l'',
      Lit CHR ''N'', Lit CHR ''O'', Lit CHR ''S'', Lit CHR ''P'', Lit CHR ''F'', Lit CHR ''I'',
      Lit CHR ''b'', Lit CHR ''c'', Lit CHR ''n'', Lit CHR ''o'', Lit CHR ''s'', Lit CHR ''p'',
      Lit CHR ''('', Lit CHR '')'', Lit CHR ''.'', Lit CHR ''='', Lit CHR ''#'', Lit CHR ''-'',
      Lit CHR ''+'', Lit (CHR 0x5C), Lit CHR ''/'', Lit CHR '':'', Lit CHR ''~'', Lit CHR ''@'',
      Lit CHR ''?'', Lit CHR ''>'', Lit CHR ''*'', Lit CHR ''$'', Percent2, Digit]"

text \<open>
  \<open>match_alt a s\<close> is the length of the match of alternative \<open>a\<close> at the start of
  \<open>s\<close>, if there is one. The quantifiers are greedy and nothing follows the group, so
  an alternative that matches has one match: the bracket's body runs to the first
  \<^verbatim>\<open>]\<close> (and is not empty), and \<^verbatim>\<open>r?\<close> takes the \<^verbatim>\<open>r\<close> when it is there.
\<close>

fun match_alt :: "alt \<Rightarrow> string \<Rightarrow> nat option" where
  "match_alt Bracket s =
     (case s of
        [] \<Rightarrow> None
      | c # r \<Rightarrow>
          (let body = takeWhile (\<lambda>x. x \<noteq> CHR '']'') r in
           if c = CHR ''['' \<and> body \<noteq> [] \<and> length body < length r
           then Some (length body + 2) else None))"
| "match_alt (Opt a b) s =
     (case s of
        [] \<Rightarrow> None
      | c # r \<Rightarrow>
          if c \<noteq> a then None
          else (case r of [] \<Rightarrow> Some 1 | d # _ \<Rightarrow> if d = b then Some 2 else Some 1))"
| "match_alt (Lit a) s =
     (case s of [] \<Rightarrow> None | c # _ \<Rightarrow> if c = a then Some 1 else None)"
| "match_alt Percent2 s =
     (case s of
        c # d1 # d2 # _ \<Rightarrow>
          if c = CHR ''%'' \<and> is_digit d1 \<and> is_digit d2 then Some 3 else None
      | _ \<Rightarrow> None)"
| "match_alt Digit s =
     (case s of [] \<Rightarrow> None | c # _ \<Rightarrow> if is_digit c then Some 1 else None)"

text \<open>An alternation takes its first alternative that matches.\<close>

fun first_match :: "alt list \<Rightarrow> string \<Rightarrow> nat option" where
  "first_match [] s = None"
| "first_match (a # as) s =
     (case match_alt a s of Some n \<Rightarrow> Some n | None \<Rightarrow> first_match as s)"

definition match_token :: "string \<Rightarrow> nat option" where
  "match_token s = first_match pattern s"

lemma match_alt_bounds: "match_alt a s = Some n \<Longrightarrow> 0 < n \<and> n \<le> length s"
  by (cases a; cases s) (auto simp: Let_def split: if_splits list.splits)

lemma first_match_bounds: "first_match as s = Some n \<Longrightarrow> 0 < n \<and> n \<le> length s"
  by (induction as) (auto split: option.splits dest: match_alt_bounds)

lemma match_token_bounds: "match_token s = Some n \<Longrightarrow> 0 < n \<and> n \<le> length s"
  unfolding match_token_def by (rule first_match_bounds)

text \<open>
  \<^verbatim>\<open>regex.findall(smi)\<close>: scan from the left; where the pattern matches, the match is
  a token and the scan goes on after it; where it does not, the scan moves one
  character on. No match is empty.
\<close>

function findall :: "string \<Rightarrow> string list" where
  "findall [] = []"
| "findall (c # r) =
     (case match_token (c # r) of
        None \<Rightarrow> findall r
      | Some n \<Rightarrow> take n (c # r) # findall (drop n (c # r)))"
  by pat_completeness auto
termination
  by (relation "measure length") (auto dest: match_token_bounds)

text \<open>
  \<^verbatim>\<open>
  tokens = [token for token in regex.findall(smi)]
  assert smi == ''.join(tokens)
  return tokens
  \<close>
\<close>

definition smi_tokenizer :: "string \<Rightarrow> error + string list" where
  "smi_tokenizer smi =
     (let tokens = findall smi in
      if smi = concat tokens then Inr tokens else Inl AssertionError)"

text \<open>
  The grammar the tokenizer is specified for, in the specification's words: a token
  is a bracketed atom, a halogen (\<^verbatim>\<open>Br\<close>, \<^verbatim>\<open>Cl\<close>), an atom of the organic subset,
  a bond symbol, a branch parenthesis, a stereo or charge symbol, a ring-closure
  digit, or a percent sign and two digits. A supported string is a concatenation
  of tokens.
\<close>

definition bracket_atom :: "string \<Rightarrow> bool" where
  "bracket_atom t =
     (3 \<le> length t \<and> hd t = CHR ''['' \<and> last t = CHR '']'' \<and>
      CHR '']'' \<notin> set (butlast (tl t)))"

definition smiles_token :: "string \<Rightarrow> bool" where
  "smiles_token t =
     (bracket_atom t
      \<or> t = ''Br'' \<or> t = ''Cl''
      \<or> (\<exists>c \<in> set ''BCNOSPFIbcnosp''. t = [c])
      \<or> (\<exists>c \<in> set ''=#-:~.>$''. t = [c])
      \<or> (\<exists>c \<in> set ''()''. t = [c])
      \<or> (\<exists>c \<in> set (''+/@?*'' @ [CHR 0x5C]). t = [c])
      \<or> (\<exists>d \<in> set ''0123456789''. t = [d])
      \<or> (\<exists>d1 \<in> set ''0123456789''. \<exists>d2 \<in> set ''0123456789''. t = [CHR ''%'', d1, d2]))"

subsection \<open>The tokenizer on the supported grammar\<close>

lemma bracket_atom_shape:
  "bracket_atom t \<longleftrightarrow> (\<exists>body. body \<noteq> [] \<and> CHR '']'' \<notin> set body \<and> t = CHR ''['' # body @ [CHR '']''])"
proof
  assume b: "bracket_atom t"
  then obtain c r where t: "t = c # r" by (cases t) (auto simp: bracket_atom_def)
  with b have c: "c = CHR ''[''" by (simp add: bracket_atom_def)
  from b t have "r \<noteq> []" by (auto simp: bracket_atom_def)
  then obtain body l where r: "r = body @ [l]" by (metis rev_exhaust)
  with b t have "l = CHR '']''" "CHR '']'' \<notin> set body" "body \<noteq> []"
    by (auto simp: bracket_atom_def)
  with t c r show "\<exists>body. body \<noteq> [] \<and> CHR '']'' \<notin> set body \<and> t = CHR ''['' # body @ [CHR '']'']"
    by blast
next
  assume "\<exists>body. body \<noteq> [] \<and> CHR '']'' \<notin> set body \<and> t = CHR ''['' # body @ [CHR '']'']"
  then show "bracket_atom t" by (auto simp: bracket_atom_def Suc_le_eq)
qed

lemma match_bracket:
  assumes "body \<noteq> []" "CHR '']'' \<notin> set body"
  shows "match_token (CHR ''['' # body @ CHR '']'' # rest) = Some (length body + 2)"
proof -
  have "takeWhile (\<lambda>x. x \<noteq> CHR '']'') (body @ CHR '']'' # rest) = body"
    using assms(2) by (induction body) auto
  then show ?thesis using assms(1) by (simp add: match_token_def pattern_def)
qed

lemma smiles_token_start:
  "smiles_token t \<Longrightarrow> t \<noteq> [] \<and> hd t \<noteq> CHR ''r'' \<and> hd t \<noteq> CHR ''l''"
  by (auto simp: smiles_token_def bracket_atom_shape)


lemma match_halogen:
  "match_token (''Br'' @ rest) = Some 2" "match_token (''Cl'' @ rest) = Some 2"
  by (simp_all add: match_token_def pattern_def)

lemma match_B_C:
  assumes "rest = [] \<or> (hd rest \<noteq> CHR ''r'' \<and> hd rest \<noteq> CHR ''l'')"
  shows "match_token (''B'' @ rest) = Some 1" "match_token (''C'' @ rest) = Some 1"
  using assms by (cases rest; simp add: match_token_def pattern_def)+

lemma match_single:
  assumes "c \<in> set (''NOSPFIbcnosp=#-:~.>$()+/@?*'' @ [CHR 0x5C])"
  shows "match_token (c # rest) = Some 1"
  using assms by (auto simp: match_token_def pattern_def)

lemma match_percent_other:
  "c \<noteq> CHR ''%'' \<Longrightarrow> match_alt Percent2 (c # rest) = None"
  by (simp split: list.splits)

lemma match_digit:
  assumes "d \<in> set ''0123456789''"
  shows "match_token (d # rest) = Some 1"
proof -
  from assms have "d \<noteq> CHR ''%''" by auto
  then have p: "match_alt Percent2 (d # rest) = None" by (rule match_percent_other)
  have "first_match [Percent2, Digit] (d # rest) = Some 1"
    using assms by (simp only: first_match.simps p option.case) (simp add: is_digit_def)
  moreover have "match_token (d # rest) = first_match [Percent2, Digit] (d # rest)"
    using assms unfolding match_token_def pattern_def
    by (auto simp del: match_alt.simps(4,5))
  ultimately show ?thesis by simp
qed

lemma match_percent:
  assumes "d1 \<in> set ''0123456789''" "d2 \<in> set ''0123456789''"
  shows "match_token (CHR ''%'' # d1 # d2 # rest) = Some 3"
  using assms by (simp add: match_token_def pattern_def is_digit_def)

lemma match_smiles_token:
  assumes "smiles_token t" "rest = [] \<or> (hd rest \<noteq> CHR ''r'' \<and> hd rest \<noteq> CHR ''l'')"
  shows "match_token (t @ rest) = Some (length t)"
proof -
  note bc = match_B_C [OF assms(2)]
  from assms(1) have
    "bracket_atom t
      \<or> t = ''Br'' \<or> t = ''Cl''
      \<or> (\<exists>c \<in> set ''BCNOSPFIbcnosp''. t = [c])
      \<or> (\<exists>c \<in> set ''=#-:~.>$''. t = [c])
      \<or> (\<exists>c \<in> set ''()''. t = [c])
      \<or> (\<exists>c \<in> set (''+/@?*'' @ [CHR 0x5C]). t = [c])
      \<or> (\<exists>d \<in> set ''0123456789''. t = [d])
      \<or> (\<exists>d1 \<in> set ''0123456789''. \<exists>d2 \<in> set ''0123456789''. t = [CHR ''%'', d1, d2])"
    by (simp only: smiles_token_def)
  then show ?thesis
  proof (elim disjE bexE)
    assume "bracket_atom t"
    then show ?thesis by (auto simp: bracket_atom_shape match_bracket)
  next
    assume "t = ''Br''"
    then show ?thesis using match_halogen(1) [of rest] by simp
  next
    assume "t = ''Cl''"
    then show ?thesis using match_halogen(2) [of rest] by simp
  next
    fix c assume c: "c \<in> set ''BCNOSPFIbcnosp''" and t: "t = [c]"
    from c have "c = CHR ''B'' \<or> c = CHR ''C'' \<or> c \<in> set ''NOSPFIbcnosp''" by simp
    then show ?thesis
    proof (elim disjE)
      assume "c = CHR ''B''" then show ?thesis using bc(1) t by simp
    next
      assume "c = CHR ''C''" then show ?thesis using bc(2) t by simp
    next
      assume "c \<in> set ''NOSPFIbcnosp''"
      then have "c \<in> set (''NOSPFIbcnosp=#-:~.>$()+/@?*'' @ [CHR 0x5C])" by auto
      then show ?thesis using match_single [of c rest] t by simp
    qed
  next
    fix c assume "c \<in> set ''=#-:~.>$''" and t: "t = [c]"
    then have "c \<in> set (''NOSPFIbcnosp=#-:~.>$()+/@?*'' @ [CHR 0x5C])" by auto
    then show ?thesis using match_single [of c rest] t by simp
  next
    fix c assume "c \<in> set ''()''" and t: "t = [c]"
    then have "c \<in> set (''NOSPFIbcnosp=#-:~.>$()+/@?*'' @ [CHR 0x5C])" by auto
    then show ?thesis using match_single [of c rest] t by simp
  next
    fix c assume "c \<in> set (''+/@?*'' @ [CHR 0x5C])" and t: "t = [c]"
    then have "c \<in> set (''NOSPFIbcnosp=#-:~.>$()+/@?*'' @ [CHR 0x5C])" by auto
    then show ?thesis using match_single [of c rest] t by simp
  next
    fix d assume "d \<in> set ''0123456789''" "t = [d]"
    then show ?thesis using match_digit [of d rest] by simp
  next
    fix d1 d2 assume "d1 \<in> set ''0123456789''" "d2 \<in> set ''0123456789''"
      "t = [CHR ''%'', d1, d2]"
    then show ?thesis using match_percent [of d1 d2 rest] by simp
  qed
qed

lemma concat_tokens_start:
  "list_all smiles_token ts \<Longrightarrow>
   concat ts = [] \<or> (hd (concat ts) \<noteq> CHR ''r'' \<and> hd (concat ts) \<noteq> CHR ''l'')"
  by (induction ts) (auto dest: smiles_token_start)

lemma findall_tokens: "list_all smiles_token ts \<Longrightarrow> findall (concat ts) = ts"
proof (induction ts)
  case Nil
  then show ?case by simp
next
  case (Cons t ts)
  then have t: "smiles_token t" and ts: "list_all smiles_token ts" by simp_all
  from t obtain c r where cr: "t @ concat ts = c # r"
    using smiles_token_start [OF t] by (cases t) auto
  have m: "match_token (c # r) = Some (length t)"
    using match_smiles_token [OF t concat_tokens_start [OF ts]] cr by simp
  have "findall (t @ concat ts) = t # findall (concat ts)"
    unfolding cr findall.simps m using cr [symmetric] by simp
  with Cons.IH ts show ?case by simp
qed

text \<open>
  Claim C1. For every string over the supported grammar (a concatenation of bracketed
  atoms, halogens, organic-subset atoms, bond symbols, ring-closure digits, branch
  parentheses, stereo and charge symbols and two-digit percent escapes) the
  tokenizer returns, and returns exactly those tokens, so that joining its result
  gives the input back. Whatever the input, a returned token list joins to the
  input; and when the tokens found do not join to the input the tokenizer raises
  (the failed \<^verbatim>\<open>assert\<close>, Python's \<open>AssertionError\<close>, which is the
  specification's tokenization error).
\<close>

theorem smi_tokenizer_roundtrip:
  "(list_all smiles_token ts \<longrightarrow>
      smi_tokenizer (concat ts) = Inr ts \<and>
      (\<exists>toks. smi_tokenizer (concat ts) = Inr toks \<and> concat toks = concat ts))
   \<and> (smi_tokenizer s = Inr toks' \<longrightarrow> concat toks' = s)
   \<and> (concat (findall s) \<noteq> s \<longrightarrow> smi_tokenizer s = Inl AssertionError)"
proof (intro conjI impI)
  assume ts: "list_all smiles_token ts"
  show r: "smi_tokenizer (concat ts) = Inr ts"
    by (simp add: smi_tokenizer_def findall_tokens [OF ts])
  then show "\<exists>toks. smi_tokenizer (concat ts) = Inr toks \<and> concat toks = concat ts"
    by simp
next
  assume "smi_tokenizer s = Inr toks'"
  then show "concat toks' = s"
    by (auto simp: smi_tokenizer_def Let_def split: if_splits)
next
  assume "concat (findall s) \<noteq> s"
  then show "smi_tokenizer s = Inl AssertionError"
    by (auto simp: smi_tokenizer_def Let_def)
qed

theorem smi_tokenizer_roundtrip_witness:
  "smi_tokenizer ''c1ccccc1'' = Inr [''c'', ''1'', ''c'', ''c'', ''c'', ''c'', ''c'', ''1'']
   \<and> smi_tokenizer ''C[nH+]%12Br'' = Inr [''C'', ''[nH+]'', ''%12'', ''Br'']
   \<and> concat [''C'', ''[nH+]'', ''%12'', ''Br''] = ''C[nH+]%12Br''
   \<and> smi_tokenizer ''C C'' = Inl AssertionError"
proof -
  have a: "list_all smiles_token [''c'', ''1'', ''c'', ''c'', ''c'', ''c'', ''c'', ''1'']"
    by (simp add: smiles_token_def)
  have b: "list_all smiles_token [''C'', ''[nH+]'', ''%12'', ''Br'']"
    by (simp add: smiles_token_def bracket_atom_def)
  have c: "concat (findall ''C C'') \<noteq> ''C C''"
    by (simp add: match_token_def pattern_def is_digit_def)
  from smi_tokenizer_roundtrip
         [of "[''c'', ''1'', ''c'', ''c'', ''c'', ''c'', ''c'', ''1'']" "''C C''" "[]"]
       smi_tokenizer_roundtrip [of "[''C'', ''[nH+]'', ''%12'', ''Br'']" "''C C''" "[]"]
       a b c
  show ?thesis by simp
qed

end
